theory Spec2Isabelle
  imports Main
begin

unbundle bit_operations_syntax

section \<open>The LS-8 emulator of \<open>ls8/cpu.py\<close>\<close>

text \<open>
  The class \<open>CPU\<close> is embedded as a record of its attributes, each method as a function
  from the state to either the state after the call (\<open>Inr\<close>) or the exception that left
  the method together with the state at that moment (\<open>Inl\<close>). Python integers are
  unbounded, so memory cells, registers, \<open>pc\<close> and \<open>fl\<close> are \<open>int\<close>. \<open>print\<close> appends
  an event to \<open>out\<close>; the formatting of a line is not modelled, only the values it shows.
\<close>

subsection \<open>Constants\<close>

definition PROGRAM_END :: int where "PROGRAM_END = 0x04"
definition SP :: int where "SP = 0x07"

definition ADD :: int where "ADD = 0b10100000"
definition MUL :: int where "MUL = 0b10100010"
definition CMP :: int where "CMP = 0b10100111"
definition AND_op :: int where "AND_op = 0b10101000"
definition NOT_op :: int where "NOT_op = 0b01101001"
definition OR_op :: int where "OR_op = 0b10101010"
definition XOR_op :: int where "XOR_op = 0b10101011"
definition SHL :: int where "SHL = 0b10101100"
definition SHR :: int where "SHR = 0b10101101"

definition JMP :: int where "JMP = 0b01010100"
definition JEQ :: int where "JEQ = 0b01010101"
definition JNE :: int where "JNE = 0b01010110"

definition HLT :: int where "HLT = 0b00000001"
definition LDI :: int where "LDI = 0b10000010"
definition PUSH :: int where "PUSH = 0b01000101"
definition POP :: int where "POP = 0b01000110"
definition PRN :: int where "PRN = 0b01000111"

definition ONE_BYTE :: int where "ONE_BYTE = 0xff"
definition ONE_BIT :: int where "ONE_BIT = 0x01"
definition OP_SETS_INST :: nat where "OP_SETS_INST = 0x04"
definition NUM_OPERANDS :: nat where "NUM_OPERANDS = 0x06"
definition CMP_CLEAR :: int where "CMP_CLEAR = 0b11111000"
definition EQ :: int where "EQ = 0x01"
definition GT :: int where "GT = 0x02"
definition LT :: int where "LT = 0x04"

definition STACK_HEAD :: int where "STACK_HEAD = 0xf4"

definition DONE :: int where "DONE = 0"
definition UNKNOWN_INSTRUCTION :: int where "UNKNOWN_INSTRUCTION = 1"
definition IO_ERROR :: int where "IO_ERROR = 2"
definition STACK_OVERFLOW :: int where "STACK_OVERFLOW = 3"

subsection \<open>State, output and exceptions\<close>

datatype event =
  Line string
  | Printed int
  | Unknown int
  | Trace int int int int "int list"

datatype exc =
  IndexError
  | ValueError
  | OverflowError
  | MemoryError
  | Exception string
  | SystemExit int

record cpu =
  ram :: "int list"
  reg :: "int list"
  pc :: int
  fl :: int
  is_running :: bool
  out :: "event list"

type_synonym 'a result = "(exc \<times> cpu) + 'a"

text \<open>Python list indexing: a negative index counts from the end, anything else out of
  range raises \<open>IndexError\<close>.\<close>

definition py_index :: "'a list \<Rightarrow> int \<Rightarrow> nat option" where
  "py_index xs i =
     (if 0 \<le> i \<and> i < int (length xs) then Some (nat i)
      else if - int (length xs) \<le> i \<and> i < 0 then Some (nat (i + int (length xs)))
      else None)"

text \<open>Sequencing: an exception raised by the first step leaves the method at once.\<close>

definition seq :: "'a result \<Rightarrow> ('a \<Rightarrow> 'b result) \<Rightarrow> 'b result" where
  "seq m f = (case m of Inl e \<Rightarrow> Inl e | Inr x \<Rightarrow> f x)"

definition print :: "event \<Rightarrow> cpu \<Rightarrow> cpu" where
  "print e s = s\<lparr>out := out s @ [e]\<rparr>"

text \<open>\<open>CPU.__init__\<close>.\<close>

definition init :: cpu where
  "init = \<lparr>ram = replicate 256 0,
           reg = (replicate 8 0)[nat SP := STACK_HEAD],
           pc = 0x00, fl = 0x00, is_running = False, out = []\<rparr>"

subsection \<open>Memory and register access\<close>

definition cpu_ram_read :: "int \<Rightarrow> cpu \<Rightarrow> int result" where
  "cpu_ram_read mar s =
     (case py_index (ram s) mar of
        None \<Rightarrow> Inl (IndexError, s)
      | Some i \<Rightarrow> Inr (ram s ! i))"

definition cpu_ram_write :: "int \<Rightarrow> int \<Rightarrow> cpu \<Rightarrow> cpu result" where
  "cpu_ram_write mar mdr s =
     (case py_index (ram s) mar of
        None \<Rightarrow> Inl (IndexError, s)
      | Some i \<Rightarrow> Inr (s\<lparr>ram := (ram s)[i := mdr]\<rparr>))"

text \<open>\<open>self.reg[r]\<close> as an expression and as an assignment target.\<close>

definition reg_get :: "int \<Rightarrow> cpu \<Rightarrow> int result" where
  "reg_get r s =
     (case py_index (reg s) r of
        None \<Rightarrow> Inl (IndexError, s)
      | Some i \<Rightarrow> Inr (reg s ! i))"

definition reg_set :: "int \<Rightarrow> int \<Rightarrow> cpu \<Rightarrow> cpu result" where
  "reg_set r v s =
     (case py_index (reg s) r of
        None \<Rightarrow> Inl (IndexError, s)
      | Some i \<Rightarrow> Inr (s\<lparr>reg := (reg s)[i := v]\<rparr>))"

subsection \<open>Shutdown and trace\<close>

definition cpu_shutdown :: "int \<Rightarrow> cpu \<Rightarrow> exc \<times> cpu" where
  "cpu_shutdown exit_code s = (SystemExit exit_code, print (Line ''Shutting Down...'') s)"

text \<open>\<open>trace\<close> reads the three bytes at \<open>pc\<close> before it prints anything; the register
  file always has eight slots (no method resizes it).\<close>

definition cpu_trace :: "cpu \<Rightarrow> cpu result" where
  "cpu_trace s =
     seq (cpu_ram_read (pc s) s) (\<lambda>b0.
     seq (cpu_ram_read (pc s + 1) s) (\<lambda>b1.
     seq (cpu_ram_read (pc s + 2) s) (\<lambda>b2.
       Inr (print (Trace (pc s) b0 b1 b2 (take 8 (reg s))) s))))"

subsection \<open>The ALU\<close>

text \<open>An in-place binary operation \<open>self.reg[reg_a] = self.reg[reg_a] op self.reg[reg_b]\<close>:
  both registers are read before the store, so a failing read changes nothing.\<close>

definition alu_binop :: "(int \<Rightarrow> int \<Rightarrow> int) \<Rightarrow> int \<Rightarrow> int \<Rightarrow> cpu \<Rightarrow> cpu result" where
  "alu_binop f reg_a reg_b s =
     seq (reg_get reg_a s) (\<lambda>a.
     seq (reg_get reg_b s) (\<lambda>b.
       reg_set reg_a (f a b) s))"

text \<open>
  Python's shifts raise \<open>ValueError\<close> on a negative count. \<open><<\<close> builds the shifted
  integer in full before anything is stored, and raises \<open>OverflowError\<close> or
  \<open>MemoryError\<close> when that integer is too large for the interpreter or the machine. How
  large is too large belongs to the host and not to this program, so it is a parameter:
  \<open>host a b\<close> is the exception the host raises for \<open>a << b\<close> with \<open>b \<ge> 0\<close>, if it
  raises one. \<open>>>\<close> builds nothing larger than its operand.
\<close>

type_synonym host = "int \<Rightarrow> int \<Rightarrow> exc option"

definition alu_shl :: "host \<Rightarrow> int \<Rightarrow> int \<Rightarrow> cpu \<Rightarrow> cpu result" where
  "alu_shl host reg_a reg_b s =
     seq (reg_get reg_a s) (\<lambda>a.
     seq (reg_get reg_b s) (\<lambda>b.
       if b < 0 then Inl (ValueError, s)
       else case host a b of
              Some e \<Rightarrow> Inl (e, s)
            | None \<Rightarrow> reg_set reg_a (push_bit (nat b) a) s))"

definition alu_shr :: "int \<Rightarrow> int \<Rightarrow> cpu \<Rightarrow> cpu result" where
  "alu_shr reg_a reg_b s =
     seq (reg_get reg_a s) (\<lambda>a.
     seq (reg_get reg_b s) (\<lambda>b.
       if b < 0 then Inl (ValueError, s) else reg_set reg_a (drop_bit (nat b) a) s))"

text \<open>A host for the examples: it builds no integer of 1024 bits or more, and refuses
  outright a count of 2048 or more on a value other than zero.\<close>

definition small_host :: host where
  "small_host a b =
     (if a = 0 then None
      else if 2048 \<le> b then Some OverflowError
      else if \<bar>a\<bar> * 2 ^ nat b < 2 ^ 1024 then None
      else Some MemoryError)"

definition alu_not :: "int \<Rightarrow> cpu \<Rightarrow> cpu result" where
  "alu_not reg_a s =
     seq (reg_get reg_a s) (\<lambda>a. reg_set reg_a (NOT a) s)"

definition alu_cmp :: "int \<Rightarrow> int \<Rightarrow> cpu \<Rightarrow> cpu result" where
  "alu_cmp reg_a reg_b s =
     (let s1 = s\<lparr>fl := fl s AND CMP_CLEAR\<rparr> in
      seq (reg_get reg_a s1) (\<lambda>a.
      seq (reg_get reg_b s1) (\<lambda>b.
        if a < b then Inr (s1\<lparr>fl := fl s1 OR LT\<rparr>)
        else if a > b then Inr (s1\<lparr>fl := fl s1 OR GT\<rparr>)
        else Inr (s1\<lparr>fl := fl s1 OR EQ\<rparr>))))"

definition alu_clamp :: "int \<Rightarrow> cpu \<Rightarrow> cpu result" where
  "alu_clamp reg_a s =
     seq (reg_get reg_a s) (\<lambda>a. reg_set reg_a (a AND ONE_BYTE) s)"

definition cpu_alu :: "host \<Rightarrow> string \<Rightarrow> int \<Rightarrow> int \<Rightarrow> cpu \<Rightarrow> cpu result" where
  "cpu_alu host op reg_a reg_b s =
     seq
        (if op = ''ADD'' then alu_binop (+) reg_a reg_b s
         else if op = ''MUL'' then alu_binop (*) reg_a reg_b s
         else if op = ''CMP'' then alu_cmp reg_a reg_b s
         else if op = ''AND'' then alu_binop (AND) reg_a reg_b s
         else if op = ''OR'' then alu_binop (OR) reg_a reg_b s
         else if op = ''XOR'' then alu_binop (XOR) reg_a reg_b s
         else if op = ''NOT'' then alu_not reg_a s
         else if op = ''SHL'' then alu_shl host reg_a reg_b s
         else if op = ''SHR'' then alu_shr reg_a reg_b s
         else Inl (Exception ''Unsupported ALU operation'', s))
        (\<lambda>s'. alu_clamp reg_a s')"

subsection \<open>Instruction handlers\<close>

definition cpu_ldi :: "int \<Rightarrow> int \<Rightarrow> cpu \<Rightarrow> cpu result" where
  "cpu_ldi op_a op_b s = reg_set op_a op_b s"

definition cpu_prn :: "int \<Rightarrow> int \<Rightarrow> cpu \<Rightarrow> cpu result" where
  "cpu_prn op_a op_b s =
     seq (reg_get op_a s) (\<lambda>v. Inr (print (Printed v) s))"

definition cpu_hlt :: "int \<Rightarrow> int \<Rightarrow> cpu \<Rightarrow> cpu result" where
  "cpu_hlt op_a op_b s = Inr (s\<lparr>is_running := False\<rparr>)"

definition cpu_add :: "host \<Rightarrow> int \<Rightarrow> int \<Rightarrow> cpu \<Rightarrow> cpu result" where
  "cpu_add host = cpu_alu host ''ADD''"

definition cpu_mul :: "host \<Rightarrow> int \<Rightarrow> int \<Rightarrow> cpu \<Rightarrow> cpu result" where
  "cpu_mul host = cpu_alu host ''MUL''"

definition cpu_cmp :: "host \<Rightarrow> int \<Rightarrow> int \<Rightarrow> cpu \<Rightarrow> cpu result" where
  "cpu_cmp host = cpu_alu host ''CMP''"

definition cpu_and :: "host \<Rightarrow> int \<Rightarrow> int \<Rightarrow> cpu \<Rightarrow> cpu result" where
  "cpu_and host = cpu_alu host ''AND''"

definition cpu_or :: "host \<Rightarrow> int \<Rightarrow> int \<Rightarrow> cpu \<Rightarrow> cpu result" where
  "cpu_or host = cpu_alu host ''OR''"

definition cpu_xor :: "host \<Rightarrow> int \<Rightarrow> int \<Rightarrow> cpu \<Rightarrow> cpu result" where
  "cpu_xor host = cpu_alu host ''XOR''"

definition cpu_not :: "host \<Rightarrow> int \<Rightarrow> int \<Rightarrow> cpu \<Rightarrow> cpu result" where
  "cpu_not host = cpu_alu host ''NOT''"

definition cpu_shl :: "host \<Rightarrow> int \<Rightarrow> int \<Rightarrow> cpu \<Rightarrow> cpu result" where
  "cpu_shl host = cpu_alu host ''SHL''"

definition cpu_shr :: "host \<Rightarrow> int \<Rightarrow> int \<Rightarrow> cpu \<Rightarrow> cpu result" where
  "cpu_shr host = cpu_alu host ''SHR''"

text \<open>\<open>_pop\<close>: the right-hand side \<open>ram_read(reg[SP])\<close> is evaluated before the store
  into \<open>reg[operands[0]]\<close>; the test and the increment then read \<open>reg[SP]\<close> again.\<close>

definition cpu_pop :: "int \<Rightarrow> int \<Rightarrow> cpu \<Rightarrow> cpu result" where
  "cpu_pop op_a op_b s =
     seq (reg_get SP s) (\<lambda>sp.
     seq (cpu_ram_read sp s) (\<lambda>v.
     seq (reg_set op_a v s) (\<lambda>s1.
     seq (reg_get SP s1) (\<lambda>sp1.
       if sp1 < STACK_HEAD then reg_set SP (sp1 + 1) s1 else Inr s1))))"

text \<open>\<open>_push\<close>: on overflow the message is printed, then \<open>trace\<close> runs (and may itself
  raise), then \<open>_shutdown\<close> leaves through \<open>sys.exit\<close>.\<close>

definition cpu_push :: "int \<Rightarrow> int \<Rightarrow> cpu \<Rightarrow> cpu result" where
  "cpu_push op_a op_b s =
     seq (reg_get SP s) (\<lambda>sp.
     seq (reg_get PROGRAM_END s) (\<lambda>pe.
       if sp - 1 \<ge> pe then
         seq (reg_set SP (sp - 1) s) (\<lambda>s1.
         seq (reg_get SP s1) (\<lambda>sp1.
         seq (reg_get op_a s1) (\<lambda>v.
           cpu_ram_write sp1 v s1)))
       else
         seq (cpu_trace (print (Line ''Stack Overflow!!'') s)) (\<lambda>s1.
           Inl (cpu_shutdown STACK_OVERFLOW s1))))"

definition cpu_jmp :: "int \<Rightarrow> int \<Rightarrow> cpu \<Rightarrow> cpu result" where
  "cpu_jmp op_a op_b s =
     seq (reg_get op_a s) (\<lambda>v. Inr (s\<lparr>pc := v\<rparr>))"

definition cpu_jeq :: "int \<Rightarrow> int \<Rightarrow> cpu \<Rightarrow> cpu result" where
  "cpu_jeq op_a op_b s =
     (if fl s AND EQ \<noteq> 0 then
        seq (reg_get op_a s) (\<lambda>v. Inr (s\<lparr>pc := v\<rparr>))
      else Inr (s\<lparr>pc := pc s + 2\<rparr>))"

definition cpu_jne :: "int \<Rightarrow> int \<Rightarrow> cpu \<Rightarrow> cpu result" where
  "cpu_jne op_a op_b s =
     (if \<not> (fl s AND EQ \<noteq> 0) then
        seq (reg_get op_a s) (\<lambda>v. Inr (s\<lparr>pc := v\<rparr>))
      else Inr (s\<lparr>pc := pc s + 2\<rparr>))"

subsection \<open>The dispatch table and the execution loop\<close>

text \<open>The dictionary \<open>perform_op\<close> is filled once in \<open>__init__\<close> and never changed; the
  ALU handlers in it run on the host's integers.\<close>

definition perform_op :: "host \<Rightarrow> int \<rightharpoonup> (int \<Rightarrow> int \<Rightarrow> cpu \<Rightarrow> cpu result)" where
  "perform_op host =
     [LDI \<mapsto> cpu_ldi, PRN \<mapsto> cpu_prn, HLT \<mapsto> cpu_hlt, PUSH \<mapsto> cpu_push, POP \<mapsto> cpu_pop,
      JMP \<mapsto> cpu_jmp, JEQ \<mapsto> cpu_jeq, JNE \<mapsto> cpu_jne,
      ADD \<mapsto> cpu_add host, MUL \<mapsto> cpu_mul host, CMP \<mapsto> cpu_cmp host,
      AND_op \<mapsto> cpu_and host, OR_op \<mapsto> cpu_or host, XOR_op \<mapsto> cpu_xor host,
      NOT_op \<mapsto> cpu_not host, SHL \<mapsto> cpu_shl host, SHR \<mapsto> cpu_shr host]"

definition cpu_to_next_instruction :: "int \<Rightarrow> cpu \<Rightarrow> cpu" where
  "cpu_to_next_instruction ir s =
     (let isPcAlreadySet = drop_bit OP_SETS_INST ir;
          isPcAlreadySet = isPcAlreadySet AND ONE_BIT
      in if \<not> (isPcAlreadySet \<noteq> 0) then s\<lparr>pc := pc s + (drop_bit NUM_OPERANDS ir + 1)\<rparr> else s)"

text \<open>The three reads at the head of the loop body.\<close>

definition fetch :: "cpu \<Rightarrow> (int \<times> int \<times> int) result" where
  "fetch s =
     seq (cpu_ram_read (pc s) s) (\<lambda>instruction_reg.
     seq (cpu_ram_read (pc s + 1) s) (\<lambda>op_a.
     seq (cpu_ram_read (pc s + 2) s) (\<lambda>op_b.
       Inr (instruction_reg, op_a, op_b))))"

text \<open>One iteration of the \<open>while\<close> loop of \<open>run\<close>.\<close>

definition run_body :: "host \<Rightarrow> cpu \<Rightarrow> cpu result" where
  "run_body host s =
     seq (fetch s) (\<lambda>(instruction_reg, op_a, op_b).
       case perform_op host instruction_reg of
         Some handler \<Rightarrow>
           seq (cpu_trace s) (\<lambda>s1.
           seq (handler op_a op_b s1) (\<lambda>s2.
             Inr (cpu_to_next_instruction instruction_reg s2)))
       | None \<Rightarrow>
           Inl (cpu_shutdown UNKNOWN_INSTRUCTION (print (Unknown instruction_reg) s)))"

text \<open>\<open>run\<close> never returns: it ends in \<open>sys.exit\<close> or another exception (\<open>Some\<close>), or
  loops forever (\<open>None\<close>).\<close>

partial_function (option) run_loop :: "host \<Rightarrow> cpu \<Rightarrow> (exc \<times> cpu) option" where
  "run_loop host s =
     (if is_running s then
        (case run_body host s of Inl e \<Rightarrow> Some e | Inr s' \<Rightarrow> run_loop host s')
      else Some (cpu_shutdown DONE s))"

declare run_loop.simps [code]

definition cpu_run :: "host \<Rightarrow> cpu \<Rightarrow> (exc \<times> cpu) option" where
  "cpu_run host s = run_loop host ((print (Line ''Running...'') s)\<lparr>is_running := True\<rparr>)"

subsection \<open>Sequences of stack instructions\<close>

text \<open>The operation tags of the ALU whose result is written to \<open>reg[reg_a]\<close>.\<close>

definition clamped_ops :: "string set" where
  "clamped_ops = {''ADD'', ''MUL'', ''AND'', ''OR'', ''XOR'', ''NOT'', ''SHL'', ''SHR''}"

text \<open>A run of \<open>PUSH\<close> and \<open>POP\<close> handler calls, each with the two operand bytes the
  loop would pass; the first exception ends the run.\<close>

datatype stack_op = Push int int | Pop int int

fun stack_op_exec :: "stack_op \<Rightarrow> cpu \<Rightarrow> cpu result" where
  "stack_op_exec (Push op_a op_b) s = cpu_push op_a op_b s"
| "stack_op_exec (Pop op_a op_b) s = cpu_pop op_a op_b s"

fun run_stack_ops :: "stack_op list \<Rightarrow> cpu \<Rightarrow> cpu result" where
  "run_stack_ops [] s = Inr s"
| "run_stack_ops (x # xs) s = seq (stack_op_exec x s) (run_stack_ops xs)"

text \<open>Balanced sequences, by counting: \<open>closes n xs\<close> when \<open>xs\<close> is well nested and its
  unmatched \<open>POP\<close>s close exactly \<open>n\<close> \<open>PUSH\<close>es left open before it.\<close>

fun closes :: "nat \<Rightarrow> stack_op list \<Rightarrow> bool" where
  "closes n [] \<longleftrightarrow> n = 0"
| "closes n (Push op_a op_b # xs) \<longleftrightarrow> closes (Suc n) xs"
| "closes n (Pop op_a op_b # xs) \<longleftrightarrow> (case n of 0 \<Rightarrow> False | Suc m \<Rightarrow> closes m xs)"

definition balanced :: "stack_op list \<Rightarrow> bool" where
  "balanced xs \<longleftrightarrow> closes 0 xs"

text \<open>An operand byte that names a register (Python accepts \<open>-8 \<dots> 7\<close>); a \<open>POP\<close>
  target that is not the stack pointer, which \<open>7\<close> and \<open>-1\<close> both name.\<close>

fun ok_op :: "stack_op \<Rightarrow> bool" where
  "ok_op (Push op_a op_b) \<longleftrightarrow> - 8 \<le> op_a \<and> op_a < 8"
| "ok_op (Pop op_a op_b) \<longleftrightarrow> - 8 \<le> op_a \<and> op_a < 8 \<and> op_a \<noteq> SP \<and> op_a \<noteq> SP - 8"

text \<open>State invariants: the sizes fixed by \<open>__init__\<close>, and cells that hold no negative
  number.\<close>

definition sized :: "cpu \<Rightarrow> bool" where
  "sized s \<longleftrightarrow> length (ram s) = 256 \<and> length (reg s) = 8"

definition nonneg :: "cpu \<Rightarrow> bool" where
  "nonneg s \<longleftrightarrow> list_all (\<lambda>v. 0 \<le> v) (ram s) \<and> list_all (\<lambda>v. 0 \<le> v) (reg s)"

text \<open>The stack discipline: sizes as constructed, no negative cell, and a stack pointer
  that has not been moved above \<open>STACK_HEAD\<close>.\<close>

definition stack_inv :: "cpu \<Rightarrow> bool" where
  "stack_inv s \<longleftrightarrow> sized s \<and> nonneg s \<and> reg s ! nat SP \<le> STACK_HEAD"

section \<open>Properties\<close>

lemmas opcode_defs =
  ADD_def MUL_def CMP_def AND_op_def NOT_op_def OR_op_def XOR_op_def SHL_def SHR_def
  JMP_def JEQ_def JNE_def HLT_def LDI_def PUSH_def POP_def PRN_def

subsection \<open>Indexing and sequencing\<close>

lemma seq_simps [simp]: "seq (Inr x) f = f x" "seq (Inl e) f = Inl e"
  by (simp_all add: seq_def)

lemma py_index_SomeD: "py_index xs i = Some k \<Longrightarrow> k < length xs"
  by (auto simp: py_index_def split: if_splits)

lemma py_index_update [simp]: "py_index (xs[k := v]) i = py_index xs i"
  by (simp add: py_index_def)

lemma reg_get_Some [simp]: "py_index (reg s) r = Some i \<Longrightarrow> reg_get r s = Inr (reg s ! i)"
  by (simp add: reg_get_def)

lemma reg_set_Some [simp]:
  "py_index (reg s) r = Some i \<Longrightarrow> reg_set r v s = Inr (s\<lparr>reg := (reg s)[i := v]\<rparr>)"
  by (simp add: reg_set_def)

subsection \<open>The ALU: comparison and clamp\<close>

lemma clamp_byte:
  assumes "0 \<le> x" and "x \<le> 255"
  shows "(x::int) AND ONE_BYTE = x"
proof -
  have "x AND ONE_BYTE = take_bit 8 x"
    by (simp add: ONE_BYTE_def take_bit_eq_mask mask_eq_exp_minus_1)
  also have "\<dots> = x"
    using assms by (simp add: take_bit_int_eq_self)
  finally show ?thesis .
qed

lemma flag_bits:
  "((x AND CMP_CLEAR) OR LT) AND LT = LT"
  "((x AND CMP_CLEAR) OR LT) AND GT = 0"
  "((x AND CMP_CLEAR) OR LT) AND EQ = 0"
  "((x AND CMP_CLEAR) OR GT) AND LT = 0"
  "((x AND CMP_CLEAR) OR GT) AND GT = GT"
  "((x AND CMP_CLEAR) OR GT) AND EQ = 0"
  "((x AND CMP_CLEAR) OR EQ) AND LT = 0"
  "((x AND CMP_CLEAR) OR EQ) AND GT = 0"
  "((x AND CMP_CLEAR) OR EQ) AND EQ = EQ"
  by (simp_all add: CMP_CLEAR_def LT_def GT_def EQ_def bit.conj_disj_distrib2 and.assoc)

lemma alu_cmp_Some:
  assumes "py_index (reg s) reg_a = Some i" and "py_index (reg s) reg_b = Some j"
  shows "cpu_alu host ''CMP'' reg_a reg_b s =
    Inr (s\<lparr>fl := (fl s AND CMP_CLEAR) OR
                 (if reg s ! i < reg s ! j then LT else if reg s ! i > reg s ! j then GT else EQ),
          reg := (reg s)[i := reg s ! i AND ONE_BYTE]\<rparr>)"
  using assms by (simp add: cpu_alu_def alu_cmp_def alu_clamp_def Let_def)

text \<open>
  Claim C1. For any two register values, \<open>CMP\<close> on two registers of the file clears the
  three flag bits and then sets exactly one of them: \<open>LT\<close> when \<open>reg[A] < reg[B]\<close>,
  \<open>GT\<close> when \<open>reg[A] > reg[B]\<close>, \<open>EQ\<close> otherwise. The comparison is of the values
  as they are before the clamp of \<open>reg[A]\<close>.
\<close>

theorem cmp_sets_exactly_one_flag:
  assumes "py_index (reg s) reg_a = Some i" and "py_index (reg s) reg_b = Some j"
  shows "\<exists>s'. cpu_alu host ''CMP'' reg_a reg_b s = Inr s' \<and>
           fl s' = (fl s AND CMP_CLEAR) OR
                   (if reg s ! i < reg s ! j then LT else if reg s ! i > reg s ! j then GT else EQ) \<and>
           (fl s' AND LT \<noteq> 0) = (reg s ! i < reg s ! j) \<and>
           (fl s' AND GT \<noteq> 0) = (reg s ! i > reg s ! j) \<and>
           (fl s' AND EQ \<noteq> 0) = (reg s ! i = reg s ! j)"
proof -
  have nz: "LT \<noteq> 0" "GT \<noteq> 0" "EQ \<noteq> 0"
    by (simp_all add: LT_def GT_def EQ_def)
  show ?thesis
    unfolding alu_cmp_Some [OF assms]
    using nz by (auto simp: flag_bits)
qed

text \<open>The example of the specification: \<open>reg[A] = 5\<close>, \<open>reg[B] = 9\<close> sets \<open>LT\<close> alone.\<close>

theorem cmp_sets_exactly_one_flag_witness:
  "\<exists>s'. cpu_alu small_host ''CMP'' 0 1 (init\<lparr>reg := [5, 9, 0, 0, 0, 0, 0, 0xF4]\<rparr>) = Inr s' \<and>
     fl s' AND LT \<noteq> 0 \<and> fl s' AND GT = 0 \<and> fl s' AND EQ = 0"
  using cmp_sets_exactly_one_flag [of "init\<lparr>reg := [5, 9, 0, 0, 0, 0, 0, 0xF4]\<rparr>" 0 0 1 1]
  by (auto simp: py_index_def)

lemma alu_binop_Some:
  "py_index (reg s) reg_a = Some i \<Longrightarrow> py_index (reg s) reg_b = Some j \<Longrightarrow>
   seq (alu_binop f reg_a reg_b s) (alu_clamp reg_a) =
     Inr (s\<lparr>reg := (reg s)[i := f (reg s ! i) (reg s ! j) AND ONE_BYTE]\<rparr>)"
  by (simp add: alu_binop_def alu_clamp_def py_index_SomeD)

lemma alu_not_Some:
  "py_index (reg s) reg_a = Some i \<Longrightarrow>
   seq (alu_not reg_a s) (alu_clamp reg_a) =
     Inr (s\<lparr>reg := (reg s)[i := NOT (reg s ! i) AND ONE_BYTE]\<rparr>)"
  by (simp add: alu_not_def alu_clamp_def py_index_SomeD)

lemma alu_shr_Some:
  "py_index (reg s) reg_a = Some i \<Longrightarrow> py_index (reg s) reg_b = Some j \<Longrightarrow>
   seq (alu_shr reg_a reg_b s) (alu_clamp reg_a) =
     (if reg s ! j < 0 then Inl (ValueError, s)
      else Inr (s\<lparr>reg := (reg s)[i := drop_bit (nat (reg s ! j)) (reg s ! i) AND ONE_BYTE]\<rparr>))"
  by (simp add: alu_shr_def alu_clamp_def py_index_SomeD)

lemma alu_shl_Some:
  "py_index (reg s) reg_a = Some i \<Longrightarrow> py_index (reg s) reg_b = Some j \<Longrightarrow>
   seq (alu_shl host reg_a reg_b s) (alu_clamp reg_a) =
     (if reg s ! j < 0 then Inl (ValueError, s)
      else case host (reg s ! i) (reg s ! j) of
             Some e \<Rightarrow> Inl (e, s)
           | None \<Rightarrow>
               Inr (s\<lparr>reg := (reg s)[i := push_bit (nat (reg s ! j)) (reg s ! i) AND ONE_BYTE]\<rparr>))"
  by (simp add: alu_shl_def alu_clamp_def py_index_SomeD split: option.splits)

lemma cpu_alu_unfold:
  "cpu_alu host ''ADD'' a b s = seq (alu_binop (+) a b s) (alu_clamp a)"
  "cpu_alu host ''MUL'' a b s = seq (alu_binop (*) a b s) (alu_clamp a)"
  "cpu_alu host ''AND'' a b s = seq (alu_binop (AND) a b s) (alu_clamp a)"
  "cpu_alu host ''OR'' a b s = seq (alu_binop (OR) a b s) (alu_clamp a)"
  "cpu_alu host ''XOR'' a b s = seq (alu_binop (XOR) a b s) (alu_clamp a)"
  "cpu_alu host ''NOT'' a b s = seq (alu_not a s) (alu_clamp a)"
  "cpu_alu host ''SHL'' a b s = seq (alu_shl host a b s) (alu_clamp a)"
  "cpu_alu host ''SHR'' a b s = seq (alu_shr a b s) (alu_clamp a)"
  by (simp_all add: cpu_alu_def)

lemma binop_clamped:
  assumes "py_index (reg s) reg_a = Some i" and "py_index (reg s) reg_b = Some j"
  shows "\<exists>s'. seq (alu_binop f reg_a reg_b s) (alu_clamp reg_a) = Inr s' \<and>
           0 \<le> reg s' ! i \<and> reg s' ! i \<le> 255"
  using assms py_index_SomeD [OF assms(1)] by (simp add: alu_binop_Some ONE_BYTE_def)

lemma not_clamped:
  assumes "py_index (reg s) reg_a = Some i"
  shows "\<exists>s'. seq (alu_not reg_a s) (alu_clamp reg_a) = Inr s' \<and>
           0 \<le> reg s' ! i \<and> reg s' ! i \<le> 255"
  using assms py_index_SomeD [OF assms(1)] by (simp add: alu_not_Some ONE_BYTE_def)

lemma shr_clamped:
  assumes "py_index (reg s) reg_a = Some i" and "py_index (reg s) reg_b = Some j"
  shows "if reg s ! j < 0 then seq (alu_shr reg_a reg_b s) (alu_clamp reg_a) = Inl (ValueError, s)
         else \<exists>s'. seq (alu_shr reg_a reg_b s) (alu_clamp reg_a) = Inr s' \<and>
           0 \<le> reg s' ! i \<and> reg s' ! i \<le> 255"
  using assms py_index_SomeD [OF assms(1)] by (simp add: alu_shr_Some ONE_BYTE_def)

lemma shl_clamped:
  assumes "py_index (reg s) reg_a = Some i" and "py_index (reg s) reg_b = Some j"
  shows "if reg s ! j < 0 then seq (alu_shl host reg_a reg_b s) (alu_clamp reg_a) = Inl (ValueError, s)
         else if host (reg s ! i) (reg s ! j) \<noteq> None
         then \<exists>e. host (reg s ! i) (reg s ! j) = Some e \<and>
                seq (alu_shl host reg_a reg_b s) (alu_clamp reg_a) = Inl (e, s)
         else \<exists>s'. seq (alu_shl host reg_a reg_b s) (alu_clamp reg_a) = Inr s' \<and>
           0 \<le> reg s' ! i \<and> reg s' ! i \<le> 255"
  using assms py_index_SomeD [OF assms(1)]
  by (auto simp: alu_shl_Some ONE_BYTE_def split: option.splits)

text \<open>
  Claim C2. For every ALU operation other than \<open>CMP\<close> and for all register values, when
  the operation has executed \<open>reg[reg_a]\<close> lies in \<open>[0, 255]\<close>. It does not execute, and
  stores nothing, in two cases only: \<open>SHL\<close> or \<open>SHR\<close> with a negative count in
  \<open>reg[reg_b]\<close> (\<open>ValueError\<close>), and \<open>SHL\<close> to an integer the host cannot build. With
  every register a byte, on a host that shifts a byte by a byte, neither case arises. (\<open>NOT\<close> never reads \<open>reg[reg_b]\<close>, so its second operand may be any byte.)
\<close>

theorem alu_clamps_register:
  assumes op: "op \<in> clamped_ops"
    and a: "py_index (reg s) reg_a = Some i"
    and b: "op = ''NOT'' \<or> py_index (reg s) reg_b = Some j"
  shows "(if op \<in> {''SHL'', ''SHR''} \<and> reg s ! j < 0
          then cpu_alu host op reg_a reg_b s = Inl (ValueError, s)
          else if op = ''SHL'' \<and> host (reg s ! i) (reg s ! j) \<noteq> None
          then \<exists>e. host (reg s ! i) (reg s ! j) = Some e \<and>
                 cpu_alu host op reg_a reg_b s = Inl (e, s)
          else \<exists>s'. cpu_alu host op reg_a reg_b s = Inr s' \<and>
                 0 \<le> reg s' ! i \<and> reg s' ! i \<le> 255) \<and>
         ((\<forall>v \<in> set (reg s). 0 \<le> v \<and> v \<le> 255) \<and>
          (\<forall>a b. 0 \<le> a \<and> a \<le> 255 \<and> 0 \<le> b \<and> b \<le> 255 \<longrightarrow> host a b = None) \<longrightarrow>
            (\<exists>s'. cpu_alu host op reg_a reg_b s = Inr s' \<and>
               0 \<le> reg s' ! i \<and> reg s' ! i \<le> 255))"
proof -
  let ?ok = "\<exists>s'. cpu_alu host op reg_a reg_b s = Inr s' \<and> 0 \<le> reg s' ! i \<and> reg s' ! i \<le> 255"
  from op have "op = ''ADD'' \<or> op = ''MUL'' \<or> op = ''AND'' \<or> op = ''OR'' \<or> op = ''XOR''
    \<or> op = ''NOT'' \<or> op = ''SHL'' \<or> op = ''SHR''"
    unfolding clamped_ops_def by simp
  then consider (1) "op = ''ADD''" | (2) "op = ''MUL''" | (3) "op = ''AND''" | (4) "op = ''OR''"
    | (5) "op = ''XOR''" | (6) "op = ''NOT''" | (7) "op = ''SHL''" | (8) "op = ''SHR''"
    by (elim disjE)
  then have exact: "if op \<in> {''SHL'', ''SHR''} \<and> reg s ! j < 0
          then cpu_alu host op reg_a reg_b s = Inl (ValueError, s)
          else if op = ''SHL'' \<and> host (reg s ! i) (reg s ! j) \<noteq> None
          then \<exists>e. host (reg s ! i) (reg s ! j) = Some e \<and> cpu_alu host op reg_a reg_b s = Inl (e, s)
          else ?ok"
  proof cases
    case 1
    with b have "py_index (reg s) reg_b = Some j" by simp
    from binop_clamped [OF a this] 1 show ?thesis by (simp add: cpu_alu_unfold)
  next
    case 2
    with b have "py_index (reg s) reg_b = Some j" by simp
    from binop_clamped [OF a this] 2 show ?thesis by (simp add: cpu_alu_unfold)
  next
    case 3
    with b have "py_index (reg s) reg_b = Some j" by simp
    from binop_clamped [OF a this] 3 show ?thesis by (simp add: cpu_alu_unfold)
  next
    case 4
    with b have "py_index (reg s) reg_b = Some j" by simp
    from binop_clamped [OF a this] 4 show ?thesis by (simp add: cpu_alu_unfold)
  next
    case 5
    with b have "py_index (reg s) reg_b = Some j" by simp
    from binop_clamped [OF a this] 5 show ?thesis by (simp add: cpu_alu_unfold)
  next
    case 6
    from not_clamped [OF a] 6 show ?thesis by (simp add: cpu_alu_unfold)
  next
    case 7
    with b have "py_index (reg s) reg_b = Some j" by simp
    from shl_clamped [OF a this, of host] 7 show ?thesis by (simp add: cpu_alu_unfold)
  next
    case 8
    with b have "py_index (reg s) reg_b = Some j" by simp
    from shr_clamped [OF a this] 8 show ?thesis by (simp add: cpu_alu_unfold)
  qed
  have bytes: ?ok
    if regs: "\<forall>v \<in> set (reg s). 0 \<le> v \<and> v \<le> 255"
      and roomy: "\<forall>a b. 0 \<le> a \<and> a \<le> 255 \<and> 0 \<le> b \<and> b \<le> 255 \<longrightarrow> host a b = None"
  proof (cases "op \<in> {''SHL'', ''SHR''}")
    case False
    with exact show ?thesis by simp
  next
    case True
    with b have j: "py_index (reg s) reg_b = Some j" by auto
    have "reg s ! i \<in> set (reg s)" "reg s ! j \<in> set (reg s)"
      using py_index_SomeD [OF a] py_index_SomeD [OF j] by simp_all
    with regs have range: "0 \<le> reg s ! i" "reg s ! i \<le> 255" "0 \<le> reg s ! j" "reg s ! j \<le> 255"
      by simp_all
    from range roomy have "host (reg s ! i) (reg s ! j) = None"
      by blast
    with exact range(3) show ?thesis
      by simp
  qed
  from exact bytes show ?thesis
    by blast
qed

text \<open>The example of the specification: \<open>200 + 100\<close> leaves \<open>44\<close>; and \<open>255 << 255\<close>
  returns on the example host.\<close>

theorem alu_clamps_register_witness:
  "(\<exists>s'. cpu_alu small_host ''ADD'' 0 1 (init\<lparr>reg := [200, 100, 0, 0, 0, 0, 0, 0xF4]\<rparr>) = Inr s' \<and>
      reg s' ! 0 = 44 \<and> 0 \<le> reg s' ! 0 \<and> reg s' ! 0 \<le> 255) \<and>
   (\<exists>s'. cpu_alu small_host ''SHL'' 0 1 (init\<lparr>reg := [255, 255, 0, 0, 0, 0, 0, 0xF4]\<rparr>) = Inr s' \<and>
      0 \<le> reg s' ! 0 \<and> reg s' ! 0 \<le> 255)"
proof -
  have roomy: "\<forall>a b. 0 \<le> a \<and> a \<le> 255 \<and> 0 \<le> b \<and> b \<le> 255 \<longrightarrow> small_host a b = None"
  proof (intro allI impI)
    fix a b :: int
    assume *: "0 \<le> a \<and> a \<le> 255 \<and> 0 \<le> b \<and> b \<le> 255"
    then have "nat b \<le> 255"
      by linarith
    then have "(2::int) ^ nat b \<le> 2 ^ 255"
      by (intro power_increasing) simp_all
    with * have "a * 2 ^ nat b \<le> 255 * 2 ^ 255"
      by (intro mult_mono) simp_all
    also have "\<dots> < (2::int) ^ 1024"
      by simp
    finally have "\<bar>a\<bar> * 2 ^ nat b < 2 ^ 1024"
      using * by simp
    with * show "small_host a b = None"
      by (simp add: small_host_def)
  qed
  from alu_clamps_register [where host = small_host and op = "''ADD''"
      and s = "init\<lparr>reg := [200, 100, 0, 0, 0, 0, 0, 0xF4]\<rparr>"
      and reg_a = 0 and i = 0 and reg_b = 1 and j = 1]
  have "\<exists>s'. cpu_alu small_host ''ADD'' 0 1 (init\<lparr>reg := [200, 100, 0, 0, 0, 0, 0, 0xF4]\<rparr>) = Inr s' \<and>
      0 \<le> reg s' ! 0 \<and> reg s' ! 0 \<le> 255"
    by (simp add: py_index_def clamped_ops_def)
  then have add: "\<exists>s'. cpu_alu small_host ''ADD'' 0 1 (init\<lparr>reg := [200, 100, 0, 0, 0, 0, 0, 0xF4]\<rparr>) = Inr s' \<and>
      reg s' ! 0 = 44 \<and> 0 \<le> reg s' ! 0 \<and> reg s' ! 0 \<le> 255"
    by (auto simp: cpu_alu_def alu_binop_def alu_clamp_def reg_get_def reg_set_def py_index_def
        ONE_BYTE_def)
  from alu_clamps_register [where host = small_host and op = "''SHL''"
      and s = "init\<lparr>reg := [255, 255, 0, 0, 0, 0, 0, 0xF4]\<rparr>"
      and reg_a = 0 and i = 0 and reg_b = 1 and j = 1] roomy
  have "\<exists>s'. cpu_alu small_host ''SHL'' 0 1 (init\<lparr>reg := [255, 255, 0, 0, 0, 0, 0, 0xF4]\<rparr>) = Inr s' \<and>
      0 \<le> reg s' ! 0 \<and> reg s' ! 0 \<le> 255"
    by (simp add: py_index_def clamped_ops_def)
  with add show ?thesis
    by blast
qed

text \<open>Outside the bytes the two exceptions do arise: a count of \<open>-1\<close> is refused, and
  \<open>1 << 2000\<close> is more than the example host builds; the registers are as they were.\<close>

lemma shl_raises:
  "cpu_alu host ''SHL'' 0 1 (init\<lparr>reg := [300, -1, 0, 0, 0, 0, 0, 0xF4]\<rparr>) =
     Inl (ValueError, init\<lparr>reg := [300, -1, 0, 0, 0, 0, 0, 0xF4]\<rparr>)"
  "cpu_alu small_host ''SHL'' 0 1 (init\<lparr>reg := [1, 2000, 0, 0, 0, 0, 0, 0xF4]\<rparr>) =
     Inl (MemoryError, init\<lparr>reg := [1, 2000, 0, 0, 0, 0, 0, 0xF4]\<rparr>)"
  by (simp_all add: cpu_alu_def alu_shl_def reg_get_def py_index_def small_host_def)

text \<open>
  Claim C8. When every register holds a value in \<open>[0, 255]\<close>, \<open>CMP\<close> changes the flags
  byte and nothing else: the register file, the memory, \<open>pc\<close>, the running flag and the
  output are as before.
\<close>

theorem cmp_mutates_no_register:
  assumes bytes: "\<forall>v \<in> set (reg s). 0 \<le> v \<and> v \<le> 255"
    and a: "py_index (reg s) reg_a = Some i"
    and b: "py_index (reg s) reg_b = Some j"
  shows "cpu_alu host ''CMP'' reg_a reg_b s =
           Inr (s\<lparr>fl := (fl s AND CMP_CLEAR) OR
                  (if reg s ! i < reg s ! j then LT else if reg s ! i > reg s ! j then GT else EQ)\<rparr>)"
proof -
  have "i < length (reg s)"
    using a by (rule py_index_SomeD)
  then have "reg s ! i \<in> set (reg s)"
    by simp
  with bytes have "reg s ! i AND ONE_BYTE = reg s ! i"
    by (simp add: clamp_byte)
  then show ?thesis
    by (simp add: alu_cmp_Some [OF a b])
qed

theorem cmp_mutates_no_register_witness:
  "cpu_alu small_host ''CMP'' 0 1 (init\<lparr>reg := [5, 9, 0, 0, 0, 0, 0, 0xF4]\<rparr>) =
     Inr (init\<lparr>reg := [5, 9, 0, 0, 0, 0, 0, 0xF4], fl := LT\<rparr>)"
  using cmp_mutates_no_register [of "init\<lparr>reg := [5, 9, 0, 0, 0, 0, 0, 0xF4]\<rparr>" 0 0 1 1]
  by (simp add: py_index_def init_def CMP_CLEAR_def)

subsection \<open>The constructed state\<close>

text \<open>
  Claim C10. A freshly constructed CPU has \<open>reg[7] = 0xF4\<close> (the constant \<open>STACK_HEAD\<close>),
  every other register \<open>0\<close>, \<open>pc = 0\<close>, \<open>fl = 0\<close> and 256 memory cells that are all
  \<open>0\<close>; it is not running and has printed nothing.
\<close>

theorem init_state:
  "reg init = [0, 0, 0, 0, 0, 0, 0, 0xF4] \<and> reg init ! nat SP = STACK_HEAD \<and> STACK_HEAD = 0xF4 \<and>
   pc init = 0 \<and> fl init = 0 \<and>
   ram init = replicate 256 0 \<and> length (ram init) = 256 \<and> set (ram init) = {0} \<and>
   \<not> is_running init \<and> out init = []"
  by (simp add: init_def SP_def STACK_HEAD_def eval_nat_numeral)

subsection \<open>Fetch, dispatch and exit\<close>

lemma py_index_mod:
  "py_index xs i = (if - int (length xs) \<le> i \<and> i < int (length xs)
                    then Some (nat (i mod int (length xs))) else None)"
proof -
  have "i mod int (length xs) = i + int (length xs)" if "- int (length xs) \<le> i" "i < 0"
  proof -
    have "(i + int (length xs)) mod int (length xs) = i + int (length xs)"
      using that by (intro mod_pos_pos_trivial) simp_all
    then show ?thesis by simp
  qed
  then show ?thesis
    by (auto simp: py_index_def)
qed

lemma sized_SP [simp]: "sized s \<Longrightarrow> py_index (reg s) SP = Some 7"
  by (simp add: sized_def SP_def py_index_def)

lemma sized_PROGRAM_END [simp]: "sized s \<Longrightarrow> py_index (reg s) PROGRAM_END = Some 4"
  by (simp add: sized_def PROGRAM_END_def py_index_def)

lemma cpu_ram_read_Some [simp]:
  "py_index (ram s) a = Some k \<Longrightarrow> cpu_ram_read a s = Inr (ram s ! k)"
  by (simp add: cpu_ram_read_def)

lemma cpu_ram_read_None [simp]:
  "py_index (ram s) a = None \<Longrightarrow> cpu_ram_read a s = Inl (IndexError, s)"
  by (simp add: cpu_ram_read_def)

lemma cpu_ram_write_Some [simp]:
  "py_index (ram s) a = Some k \<Longrightarrow> cpu_ram_write a v s = Inr (s\<lparr>ram := (ram s)[k := v]\<rparr>)"
  by (simp add: cpu_ram_write_def)

lemma fetch_eq:
  assumes "length (ram s) = 256"
  shows "fetch s =
    (if - 256 \<le> pc s \<and> pc s \<le> 253
     then Inr (ram s ! nat (pc s mod 256), ram s ! nat ((pc s + 1) mod 256), ram s ! nat ((pc s + 2) mod 256))
     else Inl (IndexError, s))"
  using assms by (simp add: fetch_def cpu_ram_read_def py_index_mod)

lemma cpu_trace_eq:
  assumes "length (ram s) = 256"
  shows "cpu_trace s =
    (if - 256 \<le> pc s \<and> pc s \<le> 253
     then Inr (print (Trace (pc s) (ram s ! nat (pc s mod 256)) (ram s ! nat ((pc s + 1) mod 256))
                 (ram s ! nat ((pc s + 2) mod 256)) (take 8 (reg s))) s)
     else Inl (IndexError, s))"
  using assms by (simp add: cpu_trace_def cpu_ram_read_def py_index_mod)

lemma fetch_trace:
  "fetch s = Inr (ir, op_a, op_b) \<Longrightarrow>
   cpu_trace s = Inr (print (Trace (pc s) ir op_a op_b (take 8 (reg s))) s)"
  by (auto simp: fetch_def cpu_trace_def seq_def split: sum.splits)

lemma perform_op_dom:
  "dom (perform_op host) =
     {LDI, PRN, HLT, PUSH, POP, JMP, JEQ, JNE, ADD, MUL, CMP, AND_op, OR_op, XOR_op, NOT_op, SHL, SHR}"
  unfolding perform_op_def by auto

lemma perform_op_card: "card (dom (perform_op host)) = 17"
  unfolding perform_op_dom by (simp add: opcode_defs)

lemma perform_op_HLT: "perform_op host HLT = Some cpu_hlt"
  by (simp add: perform_op_def opcode_defs)

lemma run_body_unknown:
  assumes "fetch s = Inr (ir, op_a, op_b)" and "ir \<notin> dom (perform_op host)"
  shows "run_body host s = Inl (SystemExit 1, s\<lparr>out := out s @ [Unknown ir, Line ''Shutting Down...'']\<rparr>)"
proof -
  from assms(2) have "perform_op host ir = None"
    by blast
  with assms(1) show ?thesis
    by (simp add: run_body_def cpu_shutdown_def print_def UNKNOWN_INSTRUCTION_def)
qed

lemma run_body_HLT:
  assumes "fetch s = Inr (HLT, op_a, op_b)"
  shows "run_body host s = Inr (s\<lparr>is_running := False, pc := pc s + 1,
           out := out s @ [Trace (pc s) HLT op_a op_b (take 8 (reg s))]\<rparr>)"
  using assms fetch_trace [OF assms]
  by (simp add: run_body_def perform_op_HLT cpu_hlt_def cpu_to_next_instruction_def print_def)
     (simp add: HLT_def OP_SETS_INST_def NUM_OPERANDS_def ONE_BIT_def)

text \<open>
  Claim C5. The dispatch table holds exactly the 17 opcodes \<open>LDI\<close>, \<open>PRN\<close>, \<open>HLT\<close>,
  \<open>PUSH\<close>, \<open>POP\<close>, \<open>JMP\<close>, \<open>JEQ\<close>, \<open>JNE\<close>, \<open>ADD\<close>, \<open>MUL\<close>, \<open>CMP\<close>, \<open>AND\<close>,
  \<open>OR\<close>, \<open>XOR\<close>, \<open>NOT\<close>, \<open>SHL\<close>, \<open>SHR\<close>. When the loop has fetched an opcode that is
  not among them, it prints the opcode and the shutdown notice and leaves through
  \<open>sys.exit(1)\<close>; when it has fetched \<open>HLT\<close>, it traces, stops running, steps \<open>pc\<close> by
  one and leaves through \<open>sys.exit(0)\<close>.
\<close>

theorem unknown_instruction_and_halt:
  assumes "is_running s" and "fetch s = Inr (ir, op_a, op_b)"
  shows "dom (perform_op host) =
           {LDI, PRN, HLT, PUSH, POP, JMP, JEQ, JNE,
            ADD, MUL, CMP, AND_op, OR_op, XOR_op, NOT_op, SHL, SHR} \<and>
         card (dom (perform_op host)) = 17 \<and>
         (ir \<notin> dom (perform_op host) \<longrightarrow>
            run_loop host s = Some (SystemExit 1,
              s\<lparr>out := out s @ [Unknown ir, Line ''Shutting Down...'']\<rparr>)) \<and>
         (ir = HLT \<longrightarrow>
            run_loop host s = Some (SystemExit 0,
              s\<lparr>is_running := False, pc := pc s + 1,
                out := out s @ [Trace (pc s) HLT op_a op_b (take 8 (reg s)),
                                Line ''Shutting Down...'']\<rparr>))"
proof (intro conjI impI)
  show "dom (perform_op host) =
     {LDI, PRN, HLT, PUSH, POP, JMP, JEQ, JNE, ADD, MUL, CMP, AND_op, OR_op, XOR_op, NOT_op, SHL, SHR}"
    by (rule perform_op_dom)
  show "card (dom (perform_op host)) = 17"
    by (rule perform_op_card)
next
  assume "ir \<notin> dom (perform_op host)"
  from run_body_unknown [OF assms(2) this] assms(1)
  show "run_loop host s = Some (SystemExit 1, s\<lparr>out := out s @ [Unknown ir, Line ''Shutting Down...'']\<rparr>)"
    by (subst run_loop.simps) simp
next
  assume "ir = HLT"
  with assms(2) have "fetch s = Inr (HLT, op_a, op_b)"
    by simp
  note step = run_body_HLT [OF this]
  let ?s' = "s\<lparr>is_running := False, pc := pc s + 1,
           out := out s @ [Trace (pc s) HLT op_a op_b (take 8 (reg s))]\<rparr>"
  have "run_loop host s = run_loop host ?s'"
    using assms(1) step by (subst run_loop.simps) simp
  also have "\<dots> = Some (cpu_shutdown DONE ?s')"
    by (subst run_loop.simps) simp
  finally show "run_loop host s = Some (SystemExit 0,
              s\<lparr>is_running := False, pc := pc s + 1,
                out := out s @ [Trace (pc s) HLT op_a op_b (take 8 (reg s)),
                                Line ''Shutting Down...'']\<rparr>)"
    by (simp add: cpu_shutdown_def print_def DONE_def)
qed

text \<open>A fresh CPU meets opcode \<open>0\<close> and exits with 1; with \<open>HLT\<close> at address 0 it exits
  with 0.\<close>

theorem unknown_instruction_and_halt_witness:
  "cpu_run small_host init = Some (SystemExit 1,
     init\<lparr>is_running := True,
        out := [Line ''Running...'', Unknown 0, Line ''Shutting Down...'']\<rparr>) \<and>
   cpu_run small_host (init\<lparr>ram := (ram init)[0 := HLT]\<rparr>) = Some (SystemExit 0,
     init\<lparr>ram := (ram init)[0 := HLT], pc := 1,
        out := [Line ''Running...'', Trace 0 HLT 0 0 (reg init), Line ''Shutting Down...'']\<rparr>)"
proof -
  let ?s = "(print (Line ''Running...'') init)\<lparr>is_running := True\<rparr>"
  let ?t = "(print (Line ''Running...'') (init\<lparr>ram := (ram init)[0 := HLT]\<rparr>))\<lparr>is_running := True\<rparr>"
  have fs: "fetch ?s = Inr (0, 0, 0)"
    by (simp add: fetch_eq init_def print_def)
  have ft: "fetch ?t = Inr (HLT, 0, 0)"
    by (simp add: fetch_eq init_def print_def)
  have nd: "(0::int) \<notin> dom (perform_op small_host)"
    unfolding perform_op_dom by (simp add: opcode_defs)
  from unknown_instruction_and_halt [of ?s 0 0 0] fs nd
  have "run_loop small_host ?s = Some (SystemExit 1, ?s\<lparr>out := out ?s @ [Unknown 0, Line ''Shutting Down...'']\<rparr>)"
    by simp
  moreover from unknown_instruction_and_halt [of ?t HLT 0 0] ft
  have "run_loop small_host ?t = Some (SystemExit 0,
              ?t\<lparr>is_running := False, pc := pc ?t + 1,
                out := out ?t @ [Trace (pc ?t) HLT 0 0 (take 8 (reg ?t)),
                                Line ''Shutting Down...'']\<rparr>)"
    by simp
  ultimately show ?thesis
    by (simp add: cpu_run_def print_def init_def)
qed




subsection \<open>The program counter\<close>


lemma seq_InrD: "seq m f = Inr y \<Longrightarrow> \<exists>x. m = Inr x \<and> f x = Inr y"
  by (cases m) simp_all












subsection \<open>PUSH and POP\<close>

lemma sized_reg_index:
  "sized s \<Longrightarrow> py_index (reg s) r = Some i \<Longrightarrow> i < 8"
  by (auto simp: sized_def dest: py_index_SomeD)

lemma ok_index:
  "- 8 \<le> r \<Longrightarrow> r < 8 \<Longrightarrow> length xs = 8 \<Longrightarrow> \<exists>i<8. py_index xs r = Some i \<and> (i = 7 \<longleftrightarrow> r = 7 \<or> r = - 1)"
  by (auto simp: py_index_def)

lemma cpu_push_Inr:
  assumes sz: "sized s" and a: "py_index (reg s) op_a = Some i"
    and ge: "reg s ! 4 \<le> reg s ! 7 - 1" and lo: "0 \<le> reg s ! 7 - 1" and hi: "reg s ! 7 \<le> 256"
  shows "cpu_push op_a op_b s =
           Inr (s\<lparr>reg := (reg s)[7 := reg s ! 7 - 1],
                 ram := (ram s)[nat (reg s ! 7 - 1) :=
                          (if i = 7 then reg s ! 7 - 1 else reg s ! i)]\<rparr>)"
proof -
  let ?s1 = "s\<lparr>reg := (reg s)[7 := reg s ! 7 - 1]\<rparr>"
  have sz1: "sized ?s1"
    using sz by (simp add: sized_def)
  have idx: "py_index (ram ?s1) (reg s ! 7 - 1) = Some (nat (reg s ! 7 - 1))"
    using sz lo hi by (simp add: py_index_def sized_def)
  have a1: "py_index (reg ?s1) op_a = Some i"
    using a by simp
  have i: "i < 8"
    using sz a by (rule sized_reg_index)
  have v: "reg ?s1 ! i = (if i = 7 then reg s ! 7 - 1 else reg s ! i)"
    using sz i by (simp add: sized_def)
  have "cpu_push op_a op_b s = cpu_ram_write (reg s ! 7 - 1) (reg ?s1 ! i) ?s1"
    using sz sz1 ge a1 by (simp add: cpu_push_def sized_def)
  also have "\<dots> = Inr (?s1\<lparr>ram := (ram ?s1)[nat (reg s ! 7 - 1) := reg ?s1 ! i]\<rparr>)"
    using idx by (rule cpu_ram_write_Some)
  finally show ?thesis
    using v by simp
qed

lemma cpu_push_InrD:
  assumes "sized s" and "cpu_push op_a op_b s = Inr s'"
  shows "reg s ! 4 \<le> reg s ! 7 - 1"
proof (rule ccontr)
  assume "\<not> reg s ! 4 \<le> reg s ! 7 - 1"
  with assms(1) have "cpu_push op_a op_b s =
      seq (cpu_trace (print (Line ''Stack Overflow!!'') s)) (\<lambda>s1. Inl (cpu_shutdown STACK_OVERFLOW s1))"
    by (simp add: cpu_push_def)
  with assms(2) show False
    by (auto dest: seq_InrD)
qed

lemma cpu_pop_Inr:
  assumes sz: "sized s" and a: "py_index (reg s) op_a = Some i"
    and sp: "py_index (ram s) (reg s ! 7) = Some j"
  shows "cpu_pop op_a op_b s =
           Inr (s\<lparr>reg := (let r1 = (reg s)[i := ram s ! j]
                           in if r1 ! 7 < 0xF4 then r1[7 := r1 ! 7 + 1] else r1)\<rparr>)"
proof -
  let ?r1 = "(reg s)[i := ram s ! j]"
  have "sized (s\<lparr>reg := ?r1\<rparr>)"
    using sz by (simp add: sized_def)
  with sz a sp show ?thesis
    by (simp add: cpu_pop_def STACK_HEAD_def Let_def)
qed

lemma cpu_push_overflow:
  assumes sz: "sized s" and lt: "reg s ! 7 - 1 < reg s ! 4"
    and pcr: "- 256 \<le> pc s" "pc s \<le> 253"
  shows "cpu_push op_a op_b s =
           Inl (SystemExit 3,
             s\<lparr>out := out s @
               [Line ''Stack Overflow!!'',
                Trace (pc s) (ram s ! nat (pc s mod 256)) (ram s ! nat ((pc s + 1) mod 256))
                  (ram s ! nat ((pc s + 2) mod 256)) (take 8 (reg s)),
                Line ''Shutting Down...'']\<rparr>)"
proof -
  have "length (ram (print (Line ''Stack Overflow!!'') s)) = 256"
    using sz by (simp add: sized_def print_def)
  from cpu_trace_eq [OF this] pcr lt sz show ?thesis
    by (simp add: cpu_push_def cpu_shutdown_def print_def STACK_OVERFLOW_def)
qed

lemma pushes_until_overflow:
  assumes "sized s" and "0 \<le> reg s ! 4" and "reg s ! 4 \<le> reg s ! 7" and "reg s ! 7 \<le> 256"
    and "- 256 \<le> pc s" and "pc s \<le> 253"
    and "list_all (\<lambda>(a, b). ok_op (Push a b)) args"
  shows "if int (length args) \<le> reg s ! 7 - reg s ! 4
         then \<exists>s'. run_stack_ops (map (case_prod Push) args) s = Inr s' \<and>
                reg s' ! 7 = reg s ! 7 - int (length args) \<and> reg s' ! 4 = reg s ! 4
         else \<exists>s'. run_stack_ops (map (case_prod Push) args) s = Inl (SystemExit 3, s') \<and>
                reg s' ! 7 = reg s ! 4 \<and> reg s' ! 4 = reg s ! 4"
  using assms
proof (induction args arbitrary: s)
  case Nil
  then show ?case by simp
next
  case (Cons x args)
  obtain a b where x: "x = (a, b)"
    by (cases x)
  from Cons.prems(7) x have ok: "- 8 \<le> a" "a < 8" and oks: "list_all (\<lambda>(a, b). ok_op (Push a b)) args"
    by simp_all
  from Cons.prems(1) have len: "length (reg s) = 8" "length (ram s) = 256"
    by (simp_all add: sized_def)
  from ok len(1) obtain i where i: "i < 8" "py_index (reg s) a = Some i"
    using ok_index [of a "reg s"] by auto
  show ?case
  proof (cases "reg s ! 4 \<le> reg s ! 7 - 1")
    case True
    let ?s1 = "s\<lparr>reg := (reg s)[7 := reg s ! 7 - 1],
                 ram := (ram s)[nat (reg s ! 7 - 1) :=
                          (if i = 7 then reg s ! 7 - 1 else reg s ! i)]\<rparr>"
    from True Cons.prems(2) have lo: "0 \<le> reg s ! 7 - 1"
      by simp
    have step: "cpu_push a b s = Inr ?s1"
      by (rule cpu_push_Inr [OF Cons.prems(1) i(2) True lo Cons.prems(4)])
    have r: "reg ?s1 ! 7 = reg s ! 7 - 1" "reg ?s1 ! 4 = reg s ! 4"
      using len by simp_all
    have "sized ?s1" "pc ?s1 = pc s"
      using Cons.prems(1) by (simp_all add: sized_def)
    with Cons.IH [of ?s1] Cons.prems True oks r
    have "if int (length args) \<le> reg ?s1 ! 7 - reg ?s1 ! 4
         then \<exists>s'. run_stack_ops (map (case_prod Push) args) ?s1 = Inr s' \<and>
                reg s' ! 7 = reg ?s1 ! 7 - int (length args) \<and> reg s' ! 4 = reg ?s1 ! 4
         else \<exists>s'. run_stack_ops (map (case_prod Push) args) ?s1 = Inl (SystemExit 3, s') \<and>
                reg s' ! 7 = reg ?s1 ! 4 \<and> reg s' ! 4 = reg ?s1 ! 4"
      by simp
    then show ?thesis
      unfolding r using step x by (auto split: if_splits)
  next
    case False
    with Cons.prems(3) have eq: "reg s ! 7 = reg s ! 4"
      by simp
    from False have "reg s ! 7 - 1 < reg s ! 4"
      by simp
    from cpu_push_overflow [OF Cons.prems(1) this Cons.prems(5,6), of a b] eq x show ?thesis
      by simp
  qed
qed

lemma pops_saturate:
  assumes "sized s" and "- 256 \<le> reg s ! 7" and "reg s ! 7 \<le> 0xF4"
    and "list_all (\<lambda>(a, b). ok_op (Pop a b)) args"
  shows "\<exists>s'. run_stack_ops (map (case_prod Pop) args) s = Inr s' \<and>
           reg s' ! 7 = min (reg s ! 7 + int (length args)) 0xF4 \<and> ram s' = ram s"
  using assms
proof (induction args arbitrary: s)
  case Nil
  then show ?case by simp
next
  case (Cons x args)
  obtain a b where x: "x = (a, b)"
    by (cases x)
  from Cons.prems(4) x have ok: "ok_op (Pop a b)" and oks: "list_all (\<lambda>(a, b). ok_op (Pop a b)) args"
    by simp_all
  from Cons.prems(1) have len: "length (reg s) = 8" "length (ram s) = 256"
    by (simp_all add: sized_def)
  from ok len(1) obtain i where i: "i < 7" "py_index (reg s) a = Some i"
    using ok_index [of a "reg s"] by (auto simp: SP_def less_Suc_eq numeral_eq_Suc)
  define j where "j = nat (reg s ! 7 mod 256)"
  have j: "py_index (ram s) (reg s ! 7) = Some j"
    using Cons.prems(2,3) len(2) by (simp add: py_index_mod j_def)
  let ?r1 = "(reg s)[i := ram s ! j]"
  let ?s1 = "s\<lparr>reg := (if ?r1 ! 7 < 0xF4 then ?r1[7 := ?r1 ! 7 + 1] else ?r1)\<rparr>"
  have step: "cpu_pop a b s = Inr ?s1"
    using cpu_pop_Inr [OF Cons.prems(1) i(2) j, of b] by (simp add: Let_def)
  have r17: "?r1 ! 7 = reg s ! 7"
    using i(1) by simp
  have sp1: "reg ?s1 ! 7 = min (reg s ! 7 + 1) 0xF4"
    using len Cons.prems(3) by (simp add: r17)
  have "sized ?s1" "ram ?s1 = ram s"
    using Cons.prems(1) by (simp_all add: sized_def)
  with Cons.IH [of ?s1] oks sp1 Cons.prems(2)
  obtain s' where "run_stack_ops (map (case_prod Pop) args) ?s1 = Inr s'"
    "reg s' ! 7 = min (min (reg s ! 7 + 1) 0xF4 + int (length args)) 0xF4" "ram s' = ram s"
    by auto
  with step x show ?case
    by (auto simp: min_def)
qed

text \<open>
  Claim C3. With \<open>reg[4] = k\<close> the end of the loaded program, a \<open>PUSH\<close> with
  \<open>SP - 1 \<ge> k\<close> decrements \<open>SP\<close> and then stores \<open>reg[op_a]\<close> at \<open>ram[SP]\<close> (so
  \<open>PUSH R7\<close> stores the decremented pointer); a \<open>PUSH\<close> with \<open>SP - 1 < k\<close> changes no
  register and no cell, prints the diagnostic, the trace and the shutdown notice, and
  leaves through \<open>sys.exit(3)\<close>. Hence of repeated \<open>PUSH\<close> calls from \<open>SP \<ge> k\<close> the
  first \<open>SP - k\<close> return and the next one is the fault, with \<open>SP = k\<close>. \<open>SP\<close> is assumed
  to address memory and \<open>pc\<close> to be where the loop could fetch the instruction.
\<close>

theorem push_or_stack_overflow:
  assumes sz: "sized s" and k: "reg s ! 4 = k" "0 \<le> k" and sp: "reg s ! 7 \<le> 256"
    and a: "py_index (reg s) op_a = Some i"
    and pcr: "- 256 \<le> pc s" "pc s \<le> 253"
  shows "(if reg s ! 7 - 1 \<ge> k
          then cpu_push op_a op_b s =
            Inr (s\<lparr>reg := (reg s)[7 := reg s ! 7 - 1],
                  ram := (ram s)[nat (reg s ! 7 - 1) :=
                           (if i = 7 then reg s ! 7 - 1 else reg s ! i)]\<rparr>)
          else cpu_push op_a op_b s =
            Inl (SystemExit 3,
              s\<lparr>out := out s @
                [Line ''Stack Overflow!!'',
                 Trace (pc s) (ram s ! nat (pc s mod 256)) (ram s ! nat ((pc s + 1) mod 256))
                   (ram s ! nat ((pc s + 2) mod 256)) (take 8 (reg s)),
                 Line ''Shutting Down...'']\<rparr>)) \<and>
         (k \<le> reg s ! 7 \<and> list_all (\<lambda>(a, b). ok_op (Push a b)) args \<longrightarrow>
            (if int (length args) \<le> reg s ! 7 - k
             then \<exists>s'. run_stack_ops (map (case_prod Push) args) s = Inr s' \<and>
                    reg s' ! 7 = reg s ! 7 - int (length args)
             else \<exists>s'. run_stack_ops (map (case_prod Push) args) s = Inl (SystemExit 3, s') \<and>
                    reg s' ! 7 = k))"
proof (intro conjI impI)
  show "if reg s ! 7 - 1 \<ge> k
          then cpu_push op_a op_b s =
            Inr (s\<lparr>reg := (reg s)[7 := reg s ! 7 - 1],
                  ram := (ram s)[nat (reg s ! 7 - 1) :=
                           (if i = 7 then reg s ! 7 - 1 else reg s ! i)]\<rparr>)
          else cpu_push op_a op_b s =
            Inl (SystemExit 3,
              s\<lparr>out := out s @
                [Line ''Stack Overflow!!'',
                 Trace (pc s) (ram s ! nat (pc s mod 256)) (ram s ! nat ((pc s + 1) mod 256))
                   (ram s ! nat ((pc s + 2) mod 256)) (take 8 (reg s)),
                 Line ''Shutting Down...'']\<rparr>)"
  proof (cases "reg s ! 7 - 1 \<ge> k")
    case True
    with k have "reg s ! 4 \<le> reg s ! 7 - 1" "0 \<le> reg s ! 7 - 1"
      by simp_all
    from cpu_push_Inr [OF sz a this sp] True show ?thesis
      by simp
  next
    case False
    with k have "reg s ! 7 - 1 < reg s ! 4"
      by simp
    from cpu_push_overflow [OF sz this pcr] False show ?thesis
      by simp
  qed
next
  assume "k \<le> reg s ! 7 \<and> list_all (\<lambda>(a, b). ok_op (Push a b)) args"
  with pushes_until_overflow [OF sz _ _ sp pcr, of args] k
  show "if int (length args) \<le> reg s ! 7 - k
        then \<exists>s'. run_stack_ops (map (case_prod Push) args) s = Inr s' \<and>
               reg s' ! 7 = reg s ! 7 - int (length args)
        else \<exists>s'. run_stack_ops (map (case_prod Push) args) s = Inl (SystemExit 3, s') \<and>
               reg s' ! 7 = k"
    by (auto split: if_splits)
qed

text \<open>With \<open>k = 3\<close>: a push at \<open>SP = 0xF4\<close> stores 42 at \<open>0xF3\<close>; a push at \<open>SP = 3\<close>
  is the fault; of three pushes from \<open>SP = 5\<close> the third is the fault.\<close>

theorem push_or_stack_overflow_witness:
  "cpu_push 0 0 (init\<lparr>reg := [42, 0, 0, 0, 3, 0, 0, 0xF4]\<rparr>) =
     Inr (init\<lparr>reg := [42, 0, 0, 0, 3, 0, 0, 0xF3], ram := (ram init)[0xF3 := 42]\<rparr>) \<and>
   cpu_push 0 0 (init\<lparr>reg := [42, 0, 0, 0, 3, 0, 0, 3]\<rparr>) =
     Inl (SystemExit 3, init\<lparr>reg := [42, 0, 0, 0, 3, 0, 0, 3],
       out := [Line ''Stack Overflow!!'', Trace 0 0 0 0 [42, 0, 0, 0, 3, 0, 0, 3],
               Line ''Shutting Down...'']\<rparr>) \<and>
   (\<exists>s'. run_stack_ops [Push 0 0, Push 0 0, Push 0 0] (init\<lparr>reg := [42, 0, 0, 0, 3, 0, 0, 5]\<rparr>) =
      Inl (SystemExit 3, s') \<and> reg s' ! 7 = 3)"
  using
    push_or_stack_overflow [where s = "init\<lparr>reg := [42, 0, 0, 0, 3, 0, 0, 0xF4]\<rparr>"
      and k = 3 and op_a = 0 and i = 0 and op_b = 0 and args = "[]"]
    push_or_stack_overflow [where s = "init\<lparr>reg := [42, 0, 0, 0, 3, 0, 0, 3]\<rparr>"
      and k = 3 and op_a = 0 and i = 0 and op_b = 0 and args = "[]"]
    push_or_stack_overflow [where s = "init\<lparr>reg := [42, 0, 0, 0, 3, 0, 0, 5]\<rparr>"
      and k = 3 and op_a = 0 and i = 0 and op_b = 0 and args = "[(0, 0), (0, 0), (0, 0)]"]
  by (simp add: sized_def py_index_def init_def del: run_stack_ops.simps)

text \<open>
  Claim C7. \<open>POP\<close> stores \<open>ram[SP]\<close> into \<open>reg[op_a]\<close> and then adds one to \<open>SP\<close> only
  if \<open>SP\<close> is below \<open>0xF4\<close>; memory is untouched. For a target other than \<open>R7\<close> the
  pointer therefore never passes \<open>0xF4\<close> once it is at or below it, and an increment
  never takes it past \<open>0xF4\<close> whatever the target. Any number of such \<open>POP\<close> calls
  returns, with \<open>SP\<close> raised by their number but stopped at \<open>0xF4\<close>.
\<close>

theorem pop_reads_then_saturates:
  assumes sz: "sized s" and a: "py_index (reg s) op_a = Some i"
    and sp: "py_index (ram s) (reg s ! 7) = Some j"
  shows "(\<exists>s'. cpu_pop op_a op_b s = Inr s' \<and>
            s' = s\<lparr>reg := (let r1 = (reg s)[i := ram s ! j]
                           in if r1 ! 7 < 0xF4 then r1[7 := r1 ! 7 + 1] else r1)\<rparr> \<and>
            (i \<noteq> 7 \<longrightarrow> reg s' ! i = ram s ! j \<and>
               reg s' ! 7 = (if reg s ! 7 < 0xF4 then reg s ! 7 + 1 else reg s ! 7)) \<and>
            (i \<noteq> 7 \<and> reg s ! 7 \<le> 0xF4 \<longrightarrow> reg s' ! 7 \<le> 0xF4) \<and>
            ((reg s)[i := ram s ! j] ! 7 < reg s' ! 7 \<longrightarrow> reg s' ! 7 \<le> 0xF4)) \<and>
         (reg s ! 7 \<le> 0xF4 \<and> list_all (\<lambda>(a, b). ok_op (Pop a b)) args \<longrightarrow>
            (\<exists>s'. run_stack_ops (map (case_prod Pop) args) s = Inr s' \<and>
               reg s' ! 7 = min (reg s ! 7 + int (length args)) 0xF4 \<and> ram s' = ram s))"
proof (intro conjI impI)
  have i: "i < 8"
    using sz a by (rule sized_reg_index)
  from cpu_pop_Inr [OF sz a sp, of op_b]
  show "\<exists>s'. cpu_pop op_a op_b s = Inr s' \<and>
            s' = s\<lparr>reg := (let r1 = (reg s)[i := ram s ! j]
                           in if r1 ! 7 < 0xF4 then r1[7 := r1 ! 7 + 1] else r1)\<rparr> \<and>
            (i \<noteq> 7 \<longrightarrow> reg s' ! i = ram s ! j \<and>
               reg s' ! 7 = (if reg s ! 7 < 0xF4 then reg s ! 7 + 1 else reg s ! 7)) \<and>
            (i \<noteq> 7 \<and> reg s ! 7 \<le> 0xF4 \<longrightarrow> reg s' ! 7 \<le> 0xF4) \<and>
            ((reg s)[i := ram s ! j] ! 7 < reg s' ! 7 \<longrightarrow> reg s' ! 7 \<le> 0xF4)"
    using sz i by (auto simp: Let_def sized_def nth_list_update)
next
  assume *: "reg s ! 7 \<le> 0xF4 \<and> list_all (\<lambda>(a, b). ok_op (Pop a b)) args"
  from sp sz have "- 256 \<le> reg s ! 7"
    by (auto simp: py_index_def sized_def split: if_splits)
  with * pops_saturate [OF sz, of args]
  show "\<exists>s'. run_stack_ops (map (case_prod Pop) args) s = Inr s' \<and>
               reg s' ! 7 = min (reg s ! 7 + int (length args)) 0xF4 \<and> ram s' = ram s"
    by simp
qed

text \<open>On a fresh CPU with 9 at \<open>0xF4\<close>, \<open>POP R0\<close> loads 9 and leaves \<open>SP\<close> at \<open>0xF4\<close>, and
  so do two \<open>POP\<close> calls with no \<open>PUSH\<close> before them.\<close>

theorem pop_reads_then_saturates_witness:
  "cpu_pop 0 0 (init\<lparr>ram := (ram init)[0xF4 := 9]\<rparr>) =
     Inr (init\<lparr>ram := (ram init)[0xF4 := 9], reg := (reg init)[0 := 9]\<rparr>) \<and>
   reg init ! 7 = 0xF4 \<and>
   (\<exists>s'. run_stack_ops [Pop 0 0, Pop 1 0] (init\<lparr>ram := (ram init)[0xF4 := 9]\<rparr>) = Inr s' \<and>
      reg s' ! 7 = 0xF4)"
  using pop_reads_then_saturates [where s = "init\<lparr>ram := (ram init)[0xF4 := 9]\<rparr>"
      and op_a = 0 and i = 0 and j = "0xF4" and op_b = 0 and args = "[(0, 0), (1, 0)]"]
  by (auto simp: sized_def py_index_def init_def SP_def STACK_HEAD_def
      simp del: run_stack_ops.simps)

subsection \<open>Every instruction returns, and where it leaves the program counter\<close>

lemma print_fields [simp]:
  "reg (print e s) = reg s" "ram (print e s) = ram s" "pc (print e s) = pc s"
  "fl (print e s) = fl s" "sized (print e s) = sized s"
  by (simp_all add: print_def sized_def)










subsection \<open>Balanced stack traffic\<close>

lemma list_all_update:
  "list_all P xs \<Longrightarrow> P v \<Longrightarrow> list_all P (xs[k := v])"
  by (auto simp: list_all_iff dest: set_update_subset_insert [THEN subsetD])

lemma stack_inv_nth:
  assumes "stack_inv s"
  shows "k < 8 \<Longrightarrow> 0 \<le> reg s ! k" and "a < 256 \<Longrightarrow> 0 \<le> ram s ! a" and "reg s ! 7 \<le> 0xF4"
    and "length (reg s) = 8" and "length (ram s) = 256"
  using assms
  by (auto simp: stack_inv_def sized_def nonneg_def SP_def STACK_HEAD_def list_all_length)

lemma push_step:
  assumes inv: "stack_inv s" and ok: "ok_op (Push op_a op_b)" and run: "cpu_push op_a op_b s = Inr s'"
  shows "\<exists>i<8. py_index (reg s) op_a = Some i \<and> 1 \<le> reg s ! 7 \<and>
           s' = s\<lparr>reg := (reg s)[7 := reg s ! 7 - 1],
                 ram := (ram s)[nat (reg s ! 7 - 1) :=
                          (if i = 7 then reg s ! 7 - 1 else reg s ! i)]\<rparr> \<and>
           stack_inv s'"
proof -
  have sz: "sized s"
    using inv by (simp add: stack_inv_def)
  from ok stack_inv_nth(4) [OF inv] obtain i where i: "i < 8" "py_index (reg s) op_a = Some i"
    using ok_index [of op_a "reg s"] by auto
  from cpu_push_InrD [OF sz run] have ge: "reg s ! 4 \<le> reg s ! 7 - 1" .
  moreover have "0 \<le> reg s ! 4"
    using stack_inv_nth(1) [OF inv, of 4] by simp
  ultimately have lo: "0 \<le> reg s ! 7 - 1"
    by simp
  have hi: "reg s ! 7 \<le> 0xF4"
    by (rule stack_inv_nth(3) [OF inv])
  then have hi': "reg s ! 7 \<le> 256"
    by simp
  let ?v = "if i = 7 then reg s ! 7 - 1 else reg s ! i"
  from cpu_push_Inr [OF sz i(2) ge lo hi', of op_b] run
  have s': "s' = s\<lparr>reg := (reg s)[7 := reg s ! 7 - 1], ram := (ram s)[nat (reg s ! 7 - 1) := ?v]\<rparr>"
    by simp
  have "0 \<le> ?v"
    using lo stack_inv_nth(1) [OF inv i(1)] by simp
  then have "stack_inv s'"
    using inv lo hi unfolding s' stack_inv_def sized_def nonneg_def
    by (simp add: list_all_update SP_def STACK_HEAD_def)
  with i lo s' show ?thesis
    by auto
qed

lemma pop_step:
  assumes inv: "stack_inv s" and ok: "ok_op (Pop op_a op_b)"
  shows "\<exists>i<7. py_index (reg s) op_a = Some i \<and>
           cpu_pop op_a op_b s =
             Inr (s\<lparr>reg := (reg s)[i := ram s ! nat (reg s ! 7),
                      7 := (if reg s ! 7 < 0xF4 then reg s ! 7 + 1 else reg s ! 7)]\<rparr>) \<and>
           stack_inv (s\<lparr>reg := (reg s)[i := ram s ! nat (reg s ! 7),
                      7 := (if reg s ! 7 < 0xF4 then reg s ! 7 + 1 else reg s ! 7)]\<rparr>)"
proof -
  have sz: "sized s"
    using inv by (simp add: stack_inv_def)
  note len = stack_inv_nth(4,5) [OF inv]
  from ok len(1) obtain i where i: "i < 7" "py_index (reg s) op_a = Some i"
    using ok_index [of op_a "reg s"] by (auto simp: SP_def less_Suc_eq numeral_eq_Suc)
  have sp: "0 \<le> reg s ! 7" "reg s ! 7 \<le> 0xF4"
    using stack_inv_nth(1) [OF inv, of 7] stack_inv_nth(3) [OF inv] by simp_all
  then have j: "py_index (ram s) (reg s ! 7) = Some (nat (reg s ! 7))"
    using len by (simp add: py_index_def)
  have v: "0 \<le> ram s ! nat (reg s ! 7)"
    using sp by (intro stack_inv_nth(2) [OF inv]) simp
  let ?r = "(reg s)[i := ram s ! nat (reg s ! 7),
                      7 := (if reg s ! 7 < 0xF4 then reg s ! 7 + 1 else reg s ! 7)]"
  let ?r1 = "(reg s)[i := ram s ! nat (reg s ! 7)]"
  have r17: "?r1 ! 7 = reg s ! 7"
    using i(1) by simp
  have same: "?r1[7 := reg s ! 7] = ?r1"
    using list_update_id [of ?r1 7] r17 by simp
  have eq: "cpu_pop op_a op_b s = Inr (s\<lparr>reg := ?r\<rparr>)"
    using cpu_pop_Inr [OF sz i(2) j, of op_b] r17 same
    by (simp add: Let_def)
  have "stack_inv (s\<lparr>reg := ?r\<rparr>)"
    using inv sp v unfolding stack_inv_def sized_def nonneg_def
    by (simp add: list_all_update SP_def STACK_HEAD_def)
  with i eq show ?thesis
    by blast
qed

lemma run_stack_ops_append:
  "run_stack_ops (xs @ ys) s = seq (run_stack_ops xs s) (run_stack_ops ys)"
  by (induction xs arbitrary: s) (auto simp: seq_def split: sum.splits)

lemma closes_restores:
  assumes "closes n xs" and "stack_inv s" and "reg s ! 7 + int n \<le> 0xF4"
    and "list_all ok_op xs" and "run_stack_ops xs s = Inr s'"
  shows "stack_inv s' \<and> reg s' ! 7 = reg s ! 7 + int n \<and>
         (\<forall>a. nat (reg s ! 7 + int n) \<le> a \<longrightarrow> ram s' ! a = ram s ! a)"
  using assms
proof (induction xs arbitrary: n s)
  case Nil
  then show ?case by simp
next
  case (Cons x xs)
  from Cons.prems(5) obtain s1 where
    s1: "stack_op_exec x s = Inr s1" and s': "run_stack_ops xs s1 = Inr s'"
    by (auto dest!: seq_InrD)
  from Cons.prems(4) have ok: "ok_op x" "list_all ok_op xs"
    by simp_all
  note len = stack_inv_nth(4,5) [OF Cons.prems(2)]
  show ?case
  proof (cases x)
    case (Push a b)
    with Cons.prems(1) have cl: "closes (Suc n) xs"
      by simp
    from push_step [of s a b s1] Cons.prems(2) ok(1) s1 Push obtain i where
      i: "i < 8" and sp: "1 \<le> reg s ! 7"
      and s1_eq: "s1 = s\<lparr>reg := (reg s)[7 := reg s ! 7 - 1],
                 ram := (ram s)[nat (reg s ! 7 - 1) :=
                          (if i = 7 then reg s ! 7 - 1 else reg s ! i)]\<rparr>"
      and inv1: "stack_inv s1"
      by auto
    have sp1: "reg s1 ! 7 = reg s ! 7 - 1"
      using len by (simp add: s1_eq)
    from Cons.prems(3) have top: "reg s1 ! 7 + int (Suc n) \<le> 0xF4"
      by (simp add: sp1)
    from Cons.IH [OF cl inv1 top ok(2) s']
    have inv': "stack_inv s'" and sp': "reg s' ! 7 = reg s ! 7 + int n"
      and ram': "\<And>a. nat (reg s ! 7 + int n) \<le> a \<Longrightarrow> ram s' ! a = ram s1 ! a"
      by (simp_all add: sp1)
    have "ram s' ! a = ram s ! a" if "nat (reg s ! 7 + int n) \<le> a" for a
    proof -
      from that sp have "nat (reg s ! 7 - 1) \<noteq> a"
        by linarith
      with ram' [OF that] show ?thesis
        by (simp add: s1_eq)
    qed
    with inv' sp' show ?thesis
      by simp
  next
    case (Pop a b)
    with Cons.prems(1) obtain m where n: "n = Suc m" and cl: "closes m xs"
      by (cases n) simp_all
    from pop_step [of s a b] Cons.prems(2) ok(1) s1 Pop obtain i where
      i: "i < 7"
      and s1_eq: "s1 = s\<lparr>reg := (reg s)[i := ram s ! nat (reg s ! 7),
                      7 := (if reg s ! 7 < 0xF4 then reg s ! 7 + 1 else reg s ! 7)]\<rparr>"
      and inv1: "stack_inv s1"
      by auto
    from Cons.prems(3) n have lt: "reg s ! 7 < 0xF4"
      by simp
    have sp1: "reg s1 ! 7 = reg s ! 7 + 1"
      using len lt by (simp add: s1_eq)
    from Cons.prems(3) n have top: "reg s1 ! 7 + int m \<le> 0xF4"
      by (simp add: sp1)
    have ram1: "ram s1 = ram s"
      by (simp add: s1_eq)
    have "reg s1 ! 7 + int m = reg s ! 7 + int n"
      by (simp add: sp1 n)
    with Cons.IH [OF cl inv1 top ok(2) s'] show ?thesis
      by (simp add: ram1)
  qed
qed

lemma ok_ops_inv:
  "stack_inv s \<Longrightarrow> list_all ok_op xs \<Longrightarrow> run_stack_ops xs s = Inr s' \<Longrightarrow> stack_inv s'"
proof (induction xs arbitrary: s)
  case Nil
  then show ?case by simp
next
  case (Cons x xs)
  from Cons.prems(3) obtain s1 where s1: "stack_op_exec x s = Inr s1" "run_stack_ops xs s1 = Inr s'"
    by (auto dest!: seq_InrD)
  have "stack_inv s1"
  proof (cases x)
    case (Push a b)
    with push_step [of s a b s1] Cons.prems(1,2) s1(1) show ?thesis
      by auto
  next
    case (Pop a b)
    with pop_step [of s a b] Cons.prems(1,2) s1(1) show ?thesis
      by auto
  qed
  with Cons.IH [OF _ _ s1(2)] Cons.prems(2) show ?case
    by simp
qed

text \<open>
  Claim C6, as amended. Take a run of \<open>PUSH\<close> and \<open>POP\<close> calls that returns, from a state
  with no negative cell and \<open>SP \<le> 0xF4\<close>, in which no \<open>POP\<close> has the stack pointer as its
  target. A \<open>PUSH\<close> from a register \<open>r\<close> other than the stack pointer, then a balanced
  sequence, then the matching \<open>POP\<close> into \<open>r'\<close> leaves in \<open>reg[r']\<close> the value \<open>reg[r]\<close>
  had before the \<open>PUSH\<close>, and \<open>SP\<close> where it was before the \<open>PUSH\<close>.
\<close>

theorem stack_round_trip:
  assumes inv: "stack_inv s"
    and ok: "list_all ok_op (pre @ Push r b # xs @ [Pop r' b'])"
    and src: "r \<noteq> SP" "r \<noteq> SP - 8"
    and bal: "balanced xs"
    and run: "run_stack_ops (pre @ Push r b # xs @ [Pop r' b']) s = Inr s'"
  shows "\<exists>s0 v sp. run_stack_ops pre s = Inr s0 \<and>
           reg_get r s0 = Inr v \<and> reg_get SP s0 = Inr sp \<and>
           reg_get r' s' = Inr v \<and> reg_get SP s' = Inr sp"
proof -
  from ok have oks: "list_all ok_op pre" "ok_op (Push r b)" "list_all ok_op xs" "ok_op (Pop r' b')"
    by simp_all
  from run obtain s0 s1 s2 where
    s0: "run_stack_ops pre s = Inr s0" and s1: "cpu_push r b s0 = Inr s1"
    and s2: "run_stack_ops xs s1 = Inr s2" and s': "cpu_pop r' b' s2 = Inr s'"
    by (auto simp: run_stack_ops_append dest!: seq_InrD)
  have inv0: "stack_inv s0"
    using inv oks(1) s0 by (rule ok_ops_inv)
  note len0 = stack_inv_nth(4,5) [OF inv0]
  from push_step [OF inv0 oks(2) s1] obtain i where
    i: "i < 8" "py_index (reg s0) r = Some i" and sp: "1 \<le> reg s0 ! 7"
    and s1_eq: "s1 = s0\<lparr>reg := (reg s0)[7 := reg s0 ! 7 - 1],
                 ram := (ram s0)[nat (reg s0 ! 7 - 1) :=
                          (if i = 7 then reg s0 ! 7 - 1 else reg s0 ! i)]\<rparr>"
    and inv1: "stack_inv s1"
    by blast
  have i7: "i \<noteq> 7"
    using i(2) src len0(1) by (auto simp: py_index_def SP_def split: if_splits)
  have top: "nat (reg s0 ! 7 - 1) < 256"
    using stack_inv_nth(3) [OF inv0] sp by simp
  have sp1: "reg s1 ! 7 = reg s0 ! 7 - 1" and cell1: "ram s1 ! nat (reg s0 ! 7 - 1) = reg s0 ! i"
    using len0 i7 top by (simp_all add: s1_eq)
  have "reg s1 ! 7 + int 0 \<le> 0xF4"
    using stack_inv_nth(3) [OF inv1] by simp
  from closes_restores [OF bal [unfolded balanced_def] inv1 this oks(3) s2]
  have inv2: "stack_inv s2" and sp2: "reg s2 ! 7 = reg s0 ! 7 - 1"
    and cell2: "ram s2 ! nat (reg s0 ! 7 - 1) = reg s0 ! i"
    by (simp_all add: sp1 cell1)
  note len2 = stack_inv_nth(4,5) [OF inv2]
  from pop_step [OF inv2 oks(4)] s' obtain i' where
    i': "i' < 7" "py_index (reg s2) r' = Some i'"
    and s'_eq: "s' = s2\<lparr>reg := (reg s2)[i' := ram s2 ! nat (reg s2 ! 7),
                      7 := (if reg s2 ! 7 < 0xF4 then reg s2 ! 7 + 1 else reg s2 ! 7)]\<rparr>"
    by auto
  have lt: "reg s2 ! 7 < 0xF4"
    using sp2 stack_inv_nth(3) [OF inv0] by simp
  have "reg_get r s0 = Inr (reg s0 ! i)"
    using i(2) by simp
  moreover have "reg_get SP s0 = Inr (reg s0 ! 7)"
    using inv0 by (simp add: stack_inv_def)
  moreover have "reg_get r' s' = Inr (reg s0 ! i)"
    using i' len2 by (simp add: s'_eq reg_get_def sp2 cell2)
  moreover have "reg_get SP s' = Inr (reg s0 ! 7)"
    using len2 lt sp2 by (simp add: s'_eq reg_get_def py_index_def SP_def)
  ultimately show ?thesis
    using s0 by blast
qed

lemma init_stack_inv: "stack_inv (init\<lparr>reg := [42, 7, 0, 0, 0, 0, 0, 0xF4]\<rparr>)"
  by (simp add: stack_inv_def sized_def nonneg_def init_def SP_def STACK_HEAD_def list_all_iff)

text \<open>A nested pair: \<open>PUSH R0, PUSH R1, POP R2, POP R3\<close> brings 42 from \<open>R0\<close> to \<open>R3\<close>.\<close>

theorem stack_round_trip_witness:
  "\<exists>s'. run_stack_ops [Push 0 0, Push 1 0, Pop 2 0, Pop 3 0]
           (init\<lparr>reg := [42, 7, 0, 0, 0, 0, 0, 0xF4]\<rparr>) = Inr s' \<and>
        reg_get 3 s' = Inr 42 \<and> reg_get SP s' = Inr 0xF4"
proof -
  let ?s = "init\<lparr>reg := [42, 7, 0, 0, 0, 0, 0, 0xF4]\<rparr>"
  have "\<exists>s'. run_stack_ops [Push 0 0, Push 1 0, Pop 2 0, Pop 3 0] ?s = Inr s'"
    by (simp add: cpu_push_def cpu_pop_def reg_get_def reg_set_def cpu_ram_read_def
        cpu_ram_write_def py_index_def init_def SP_def PROGRAM_END_def STACK_HEAD_def)
  then obtain s' where s': "run_stack_ops [Push 0 0, Push 1 0, Pop 2 0, Pop 3 0] ?s = Inr s'" ..
  have bal: "balanced [Push 1 0, Pop 2 0]"
    by (simp add: balanced_def)
  have r0: "reg_get 0 ?s = Inr 42" "reg_get SP ?s = Inr 0xF4"
    by (simp_all add: reg_get_def py_index_def init_def SP_def)
  from stack_round_trip [of ?s "[]" 0 0 "[Push 1 0, Pop 2 0]" 3 0 s', OF init_stack_inv _ _ _ bal] s' r0
  have "reg_get 3 s' = Inr 42 \<and> reg_get SP s' = Inr 0xF4"
    by (simp add: SP_def)
  with s' show ?thesis
    by blast
qed

text \<open>
  Claim C6 as stated fails in two ways. \<open>PUSH R7\<close> stores the pointer after its decrement,
  so \<open>PUSH R7, POP R0\<close> on a fresh CPU leaves \<open>0xF3\<close> in \<open>R0\<close>, not the \<open>0xF4\<close> that
  \<open>R7\<close> held. And from \<open>SP = 0xFF\<close> the pair \<open>PUSH R0, POP R1\<close> ends with
  \<open>SP = 0xFE\<close>, since \<open>POP\<close> does not increment a pointer at or above \<open>0xF4\<close>.
\<close>

theorem stack_round_trip_fails_for_stack_pointer:
  "run_stack_ops [Push 7 0, Pop 0 0] init =
     Inr (init\<lparr>reg := [0xF3, 0, 0, 0, 0, 0, 0, 0xF4], ram := (ram init)[0xF3 := 0xF3]\<rparr>) \<and>
   reg init ! 7 = 0xF4 \<and>
   run_stack_ops [Push 0 0, Pop 1 0] (init\<lparr>reg := [5, 0, 0, 0, 0, 0, 0, 0xFF]\<rparr>) =
     Inr (init\<lparr>reg := [5, 5, 0, 0, 0, 0, 0, 0xFE], ram := (ram init)[0xFE := 5]\<rparr>)"
  by (simp add: cpu_push_def cpu_pop_def reg_get_def reg_set_def cpu_ram_read_def
      cpu_ram_write_def py_index_def init_def SP_def PROGRAM_END_def STACK_HEAD_def eval_nat_numeral)

end
